theory Spec2Isabelle
  imports Main "HOL-Library.Word"
begin

unbundle bit_operations_syntax

section \<open>Data model\<close>

text \<open>
  The module works on the UDP payload of a packet through a pointer \<open>buf\<close> and a
  separate length. Memory is a flat byte store addressed relative to that pointer:
  address 0 is the first payload byte, addresses below 0 are the UDP header that
  precedes it, addresses at or above the length are the tail room of the packet
  buffer. The store itself does not say which addresses belong to the datagram; that
  is the length's job, as in the C code.
\<close>

type_synonym u8 = "8 word"
type_synonym mem = "int \<Rightarrow> u8"

definition WG_HANDSHAKE_INIT :: u8 where "WG_HANDSHAKE_INIT = 0x01"
definition WG_HANDSHAKE_RESP :: u8 where "WG_HANDSHAKE_RESP = 0x02"
definition WG_COOKIE :: u8 where "WG_COOKIE = 0x03"
definition WG_DATA :: u8 where "WG_DATA = 0x04"
definition OBFS_WG_HANDSHAKE_INIT :: u8 where "OBFS_WG_HANDSHAKE_INIT = 0x11"
definition OBFS_WG_HANDSHAKE_RESP :: u8 where "OBFS_WG_HANDSHAKE_RESP = 0x12"
definition WG_MIN_LEN :: int where "WG_MIN_LEN = 32"
definition MAX_RND_LEN :: nat where "MAX_RND_LEN = 32"
definition MIN_RND_LEN :: int where "MIN_RND_LEN = 4"

text \<open>
  Modelled from the spec: the header \<open>chacha8.h\<close> is not part of the sources. The
  keystream primitive \<open>chacha8_hash\<close> is a parameter \<open>h\<close> of every function that
  calls it: it maps an 8-byte seed and the key to an output block, read by byte index.
  \<open>CHACHA8_INPUT_SIZE\<close> is the seed's size, 8 bytes. Every call passes the address
  of the seed (\<open>buf + 8\<close>, \<open>buf + len - CHACHA8_INPUT_SIZE\<close>) cast to \<open>u64\<close>;
  the seed is the 8 bytes at that address, as the comments at the calls say.
\<close>

type_synonym hash = "u8 list \<Rightarrow> u8 list \<Rightarrow> nat \<Rightarrow> u8"

definition CHACHA8_INPUT_SIZE :: nat where "CHACHA8_INPUT_SIZE = 8"

text \<open>
  Modelled from the spec: the header \<open>wg.h\<close> is not part of the sources. The tag
  field mac2 is the last \<open>WG_COOKIE_LEN = 16\<close> bytes of a handshake message: offset 132
  of the 148-byte initiation, offset 76 of the 92-byte response.
\<close>

definition WG_COOKIE_LEN :: nat where "WG_COOKIE_LEN = 16"
definition hsi_mac2 :: int where "hsi_mac2 = 132"
definition hsr_mac2 :: int where "hsr_mac2 = 76"

text \<open>
  \<open>struct obfs_buf\<close>. The array \<open>rnd\<close> has \<open>MAX_RND_LEN\<close> bytes, the indices
  below 32, and \<open>chacha_out\<close> follows it in the struct.
\<close>

record obfs_buf =
  rnd :: "nat \<Rightarrow> u8"
  chacha_out :: "nat \<Rightarrow> u8"
  rnd_len :: u8

datatype verdict = NF_DROP | XT_CONTINUE

section \<open>Memory primitives\<close>

text \<open>The \<open>n\<close> bytes at address \<open>a\<close>, as \<open>chacha8_hash\<close> reads its seed.\<close>

definition load :: "mem \<Rightarrow> int \<Rightarrow> nat \<Rightarrow> u8 list" where
  "load m a n = map (\<lambda>i. m (a + int i)) [0..<n]"

text \<open>
  \<open>*np\<close> for \<open>u32 *np\<close>: the four bytes at \<open>a\<close> as one 32-bit value (written
  little-endian; the code only tests the value against zero).
\<close>

definition load_u32 :: "mem \<Rightarrow> int \<Rightarrow> 32 word" where
  "load_u32 m a =
     word_of_nat (unat (m a) + 2 ^ 8 * unat (m (a + 1)) + 2 ^ 16 * unat (m (a + 2))
                  + 2 ^ 24 * unat (m (a + 3)))"

definition memcpy :: "mem \<Rightarrow> int \<Rightarrow> (nat \<Rightarrow> u8) \<Rightarrow> nat \<Rightarrow> mem" where
  "memcpy m dst src n = fold (\<lambda>i m'. m'(dst + int i := src i)) [0..<n] m"

definition zero_mac2 :: "nat \<Rightarrow> u8" where
  "zero_mac2 = (\<lambda>_. 0)"

section \<open>get_random_insert\<close>

text \<open>
  The host entropy source is a byte stream \<open>rng\<close> with a read position:
  \<open>get_random_bytes_wait(buf, MAX_RND_LEN)\<close> stores the next 32 bytes of it.
\<close>

definition get_random_bytes_wait :: "(nat \<Rightarrow> u8) \<Rightarrow> nat \<Rightarrow> (nat \<Rightarrow> u8) \<Rightarrow> nat \<Rightarrow> (nat \<Rightarrow> u8)" where
  "get_random_bytes_wait rng pos buf n = (\<lambda>i. if i < n then rng (pos + i) else buf i)"

text \<open>The inner \<open>for\<close> loop from index \<open>i\<close>; \<open>r\<close> is still 0 when it starts.\<close>

function scan_rnd :: "(nat \<Rightarrow> u8) \<Rightarrow> u8 \<Rightarrow> u8 \<Rightarrow> nat \<Rightarrow> u8" where
  "scan_rnd buf min_len max_len i =
     (if i < MAX_RND_LEN then
        (if buf i \<ge> min_len \<and> buf i \<le> max_len then buf i
         else scan_rnd buf min_len max_len (i + 1))
      else 0)"
  by pat_completeness auto
termination
  by (relation "measure (\<lambda>(buf, min_len, max_len, i). MAX_RND_LEN - i)") auto

declare scan_rnd.simps [simp del]

text \<open>
  The \<open>while (1)\<close> loop: it returns the filled buffer, the accepted byte and the new
  read position, or never returns (\<open>None\<close>).
\<close>

partial_function (option) get_random_insert ::
  "(nat \<Rightarrow> u8) \<Rightarrow> nat \<Rightarrow> (nat \<Rightarrow> u8) \<Rightarrow> u8 \<Rightarrow> u8 \<Rightarrow> ((nat \<Rightarrow> u8) \<times> u8 \<times> nat) option" where
  "get_random_insert rng pos buf min_len max_len =
     (let buf' = get_random_bytes_wait rng pos buf MAX_RND_LEN;
          r = scan_rnd buf' min_len max_len 0
      in if r > 0 then Some (buf', r, pos + MAX_RND_LEN)
         else get_random_insert rng (pos + MAX_RND_LEN) buf' min_len max_len)"

section \<open>Obfuscation\<close>

definition obfs_mac2 :: "hash \<Rightarrow> mem \<Rightarrow> int \<Rightarrow> obfs_buf \<Rightarrow> u8 list \<Rightarrow> mem \<times> obfs_buf" where
  "obfs_mac2 h buf data_len ob k =
     (let type = buf 0 in
      if type = WG_HANDSHAKE_INIT \<and> data_len = 148 then
        (if load_u32 buf hsi_mac2 \<noteq> 0 then (buf, ob)
         else
           let ob' = ob\<lparr>chacha_out := h (load buf 8 CHACHA8_INPUT_SIZE) k\<rparr>;
               buf' = memcpy buf hsi_mac2 (chacha_out ob') WG_COOKIE_LEN
           in (buf'(0 := buf' 0 OR 0x10), ob'))
      else if type = WG_HANDSHAKE_RESP \<and> data_len = 92 then
        (if load_u32 buf hsr_mac2 \<noteq> 0 then (buf, ob)
         else
           let ob' = ob\<lparr>chacha_out := h (load buf 8 CHACHA8_INPUT_SIZE) k\<rparr>;
               buf' = memcpy buf hsr_mac2 (chacha_out ob') WG_COOKIE_LEN
           in (buf'(0 := buf' 0 OR 0x10), ob'))
      else (buf, ob))"

definition random_drop_wg_keepalive :: "hash \<Rightarrow> mem \<Rightarrow> int \<Rightarrow> u8 list \<Rightarrow> bool" where
  "random_drop_wg_keepalive h buf len key =
     (let type = buf 0 in
      if type \<noteq> WG_DATA \<or> len \<noteq> 32 then False
      else
        let buf_prn = h (load buf (len - int CHACHA8_INPUT_SIZE) CHACHA8_INPUT_SIZE) key
        in if buf_prn 0 > 50 then True else False)"

text \<open>The loop \<open>for (i = 0; i < 16; i++, b++) *b ^= out[i]\<close>.\<close>

definition xor16 :: "mem \<Rightarrow> (nat \<Rightarrow> u8) \<Rightarrow> mem" where
  "xor16 m out = fold (\<lambda>i m'. m'(int i := m' (int i) XOR out i)) [0..<16] m"

text \<open>
  The loop that moves the message towards the end: \<open>tail = buf + len - 1\<close>,
  \<open>b = tail + rnd_len\<close>, and \<open>len\<close> times \<open>*b = *tail\<close> with both pointers
  stepping down.
\<close>

definition shift_tail :: "mem \<Rightarrow> int \<Rightarrow> int \<Rightarrow> mem" where
  "shift_tail m len rl =
     fold (\<lambda>i m'. m'(len - 1 + rl - int i := m' (len - 1 - int i))) [0..<nat len] m"

text \<open>
  The bytes \<open>memcpy\<close> reads from \<open>ob->rnd\<close> on: the array, and past its
  \<open>MAX_RND_LEN\<close> bytes the array \<open>chacha_out\<close> that follows it. The size of
  \<open>chacha_out\<close> is not in the sources; a count that runs past it as well reads the
  stack behind the struct, which is not represented.
\<close>

definition rnd_bytes :: "obfs_buf \<Rightarrow> nat \<Rightarrow> u8" where
  "rnd_bytes ob i = (if i < MAX_RND_LEN then rnd ob i else chacha_out ob (i - MAX_RND_LEN))"

definition obfs_wg :: "hash \<Rightarrow> mem \<Rightarrow> int \<Rightarrow> obfs_buf \<Rightarrow> u8 list \<Rightarrow> mem \<times> obfs_buf" where
  "obfs_wg h buf len ob key =
     (let (buf1, ob1) = obfs_mac2 h buf len ob key;
          ob2 = ob1\<lparr>chacha_out :=
                  h (load buf1 (len - int CHACHA8_INPUT_SIZE) CHACHA8_INPUT_SIZE) key\<rparr>;
          rl = rnd_len ob2;
          ob3 = ob2\<lparr>rnd := (rnd ob2)(0 := rl XOR chacha_out ob2 16)\<rparr>;
          buf2 = xor16 buf1 (chacha_out ob3);
          buf3 = shift_tail buf2 len (uint rl);
          buf4 = memcpy buf3 0 (rnd_bytes ob3) (unat rl)
      in (buf4, ob3))"

text \<open>
  \<open>xt_obfs\<close>. \<open>ob\<close> is the local \<open>struct obfs_buf\<close> as it is on entry: the code
  declares it without an initialiser, so its fields hold whatever the stack held.
  \<open>room\<close> says whether \<open>prepare_skb_for_insert\<close> succeeded. The result is the
  verdict, the payload memory and the payload length (\<open>skb_put\<close> and the UDP length
  field both grow by the local \<open>rnd_len\<close>); \<open>None\<close> is a call that never returns.
  The IP and UDP header fields and checksums are not modelled.
\<close>

definition xt_obfs ::
  "hash \<Rightarrow> (nat \<Rightarrow> u8) \<Rightarrow> bool \<Rightarrow> obfs_buf \<Rightarrow> u8 list \<Rightarrow> mem \<Rightarrow> int \<Rightarrow> (verdict \<times> mem \<times> int) option" where
  "xt_obfs h rng room ob key buf_udp wg_data_len =
     (if random_drop_wg_keepalive h buf_udp wg_data_len key
      then Some (NF_DROP, buf_udp, wg_data_len)
      else
        let max_rnd_len = (if wg_data_len > 200 then 8 else int MAX_RND_LEN) in
        case get_random_insert rng 0 (rnd ob) (word_of_int MIN_RND_LEN) (word_of_int max_rnd_len) of
          None \<Rightarrow> None
        | Some (rnd', rl, pos) \<Rightarrow>
            if \<not> room then Some (NF_DROP, buf_udp, wg_data_len)
            else Some (XT_CONTINUE,
                       fst (obfs_wg h buf_udp wg_data_len (ob\<lparr>rnd := rnd'\<rparr>) key),
                       wg_data_len + uint rl))"

section \<open>Restoration\<close>

definition restore_mac2 :: "mem \<Rightarrow> mem" where
  "restore_mac2 buf =
     (let buf' =
        (if buf 0 = OBFS_WG_HANDSHAKE_INIT then memcpy buf hsi_mac2 zero_mac2 WG_COOKIE_LEN
         else if buf 0 = OBFS_WG_HANDSHAKE_RESP then memcpy buf hsr_mac2 zero_mac2 WG_COOKIE_LEN
         else buf)
      in buf'(0 := buf' 0 AND 0x0F))"

text \<open>
  The loop that removes the insertion: \<open>head = buf\<close>, \<open>b = buf + rnd_len\<close>, and
  \<open>wg_data_len\<close> times \<open>*head = *b\<close> with both pointers stepping up.
\<close>

definition shift_head :: "mem \<Rightarrow> int \<Rightarrow> int \<Rightarrow> mem" where
  "shift_head m rl wg_data_len =
     fold (\<lambda>i m'. m'(int i := m' (rl + int i))) [0..<nat wg_data_len] m"

text \<open>The result is the returned \<open>int\<close> and the memory as the call leaves it.\<close>

definition restore_wg :: "hash \<Rightarrow> mem \<Rightarrow> int \<Rightarrow> u8 list \<Rightarrow> int \<times> mem" where
  "restore_wg h buf len key =
     (let buf_prn = h (load buf (len - int CHACHA8_INPUT_SIZE) CHACHA8_INPUT_SIZE) key;
          buf1 = buf(0 := buf 0 XOR buf_prn 16);
          rl = uint (buf1 0)
      in if rl + WG_MIN_LEN > len then (- 1, buf1)
         else
           let wg_data_len = len - rl;
               buf2 = shift_head buf1 rl wg_data_len;
               buf3 = xor16 buf2 buf_prn
           in (rl, restore_mac2 buf3))"

text \<open>
  \<open>xt_unobfs\<close>. \<open>writable\<close> says whether \<open>skb_ensure_writable\<close> succeeded. The
  result is the verdict, the payload memory and the payload length.
\<close>

definition xt_unobfs ::
  "hash \<Rightarrow> bool \<Rightarrow> u8 list \<Rightarrow> mem \<Rightarrow> int \<Rightarrow> verdict \<times> mem \<times> int" where
  "xt_unobfs h writable key buf_udp data_len =
     (if \<not> writable then (NF_DROP, buf_udp, data_len)
      else if data_len < MIN_RND_LEN then (NF_DROP, buf_udp, data_len)
      else
        let (rl, buf') = restore_wg h buf_udp data_len key
        in if rl < 0 then (NF_DROP, buf', data_len)
           else (XT_CONTINUE, buf', data_len - rl))"

section \<open>Addresses read by the restoration\<close>

text \<open>
  The addresses, relative to \<open>buf\<close>, that \<open>restore_wg\<close> reads, in program
  order: the 8 seed bytes handed to \<open>chacha8_hash\<close>, \<open>buf[0]\<close> for the
  \<open>^=\<close> and again for \<open>rnd_len\<close>, then, past the size check, the source of
  every copy of the shift loop, the 16 bytes of the unmasking loop, and \<open>buf[0]\<close>
  for the \<open>switch\<close> and the \<open>&=\<close> of \<open>restore_mac2\<close>.
\<close>

definition restore_wg_reads :: "hash \<Rightarrow> mem \<Rightarrow> int \<Rightarrow> u8 list \<Rightarrow> int list" where
  "restore_wg_reads h buf len key =
     (let seed = map (\<lambda>i. len - int CHACHA8_INPUT_SIZE + int i) [0..<CHACHA8_INPUT_SIZE];
          buf_prn = h (load buf (len - int CHACHA8_INPUT_SIZE) CHACHA8_INPUT_SIZE) key;
          buf1 = buf(0 := buf 0 XOR buf_prn 16);
          rl = uint (buf1 0)
      in seed @ [0, 0] @
         (if rl + WG_MIN_LEN > len then []
          else map (\<lambda>i. rl + int i) [0..<nat (len - rl)] @ map int [0..<16] @ [0, 0]))"

definition xt_unobfs_reads :: "hash \<Rightarrow> bool \<Rightarrow> u8 list \<Rightarrow> mem \<Rightarrow> int \<Rightarrow> int list" where
  "xt_unobfs_reads h writable key buf_udp data_len =
     (if \<not> writable then []
      else if data_len < MIN_RND_LEN then []
      else restore_wg_reads h buf_udp data_len key)"

section \<open>Datagrams\<close>

text \<open>The \<open>len\<close> bytes of the datagram at \<open>buf\<close>, and a memory that holds given bytes.\<close>

definition payload :: "mem \<Rightarrow> int \<Rightarrow> u8 list" where
  "payload m len = map (\<lambda>i. m (int i)) [0..<nat len]"

definition of_bytes :: "u8 list \<Rightarrow> mem" where
  "of_bytes bs = (\<lambda>a. if 0 \<le> a \<and> a < int (length bs) then bs ! nat a else 0)"

text \<open>
  A plain WireGuard message: one of the four type bytes, at least \<open>WG_MIN_LEN\<close>
  bytes, and the exact length for the two handshake kinds.
\<close>

definition wg_message :: "mem \<Rightarrow> int \<Rightarrow> bool" where
  "wg_message buf len \<longleftrightarrow>
     WG_MIN_LEN \<le> len \<and>
     (buf 0 = WG_HANDSHAKE_INIT \<and> len = 148 \<or> buf 0 = WG_HANDSHAKE_RESP \<and> len = 92 \<or>
      buf 0 = WG_COOKIE \<or> buf 0 = WG_DATA)"

text \<open>
  The mac2 field at offset \<open>off\<close> is either all zero or starts with a non-zero
  32-bit word: the two cases \<open>obfs_mac2\<close> tells apart by its test of \<open>*np\<close>.
\<close>

definition mac2_zero_or_set :: "mem \<Rightarrow> int \<Rightarrow> bool" where
  "mac2_zero_or_set buf off \<longleftrightarrow>
     load_u32 buf off \<noteq> 0 \<or> load buf off WG_COOKIE_LEN = replicate WG_COOKIE_LEN 0"

definition handshake_mac2_ok :: "mem \<Rightarrow> bool" where
  "handshake_mac2_ok buf \<longleftrightarrow>
     (if buf 0 = WG_HANDSHAKE_INIT then mac2_zero_or_set buf hsi_mac2
      else if buf 0 = WG_HANDSHAKE_RESP then mac2_zero_or_set buf hsr_mac2
      else True)"

section \<open>Concrete inputs\<close>

text \<open>
  A stand-in for the keystream primitive, an entropy stream (the bytes 0, 1, 2, ...), a
  key, and two states of the local \<open>struct obfs_buf\<close>: one whose \<open>rnd_len\<close>
  happens to hold the length the selector will choose from \<open>test_rng\<close>, and one that
  holds another value.
\<close>

definition test_hash :: hash where
  "test_hash seed key i = sum_list seed + sum_list key + of_nat i + 1"

definition test_key :: "u8 list" where
  "test_key = replicate 32 0x2A"

definition test_rng :: "nat \<Rightarrow> u8" where
  "test_rng n = of_nat n"

definition test_ob :: obfs_buf where
  "test_ob = \<lparr>rnd = (\<lambda>_. 0), chacha_out = (\<lambda>_. 0), rnd_len = 4\<rparr>"

definition stale_ob :: obfs_buf where
  "stale_ob = \<lparr>rnd = (\<lambda>_. 0), chacha_out = (\<lambda>_. 0), rnd_len = 9\<rparr>"

definition test_rnd :: "nat \<Rightarrow> u8" where
  "test_rnd = get_random_bytes_wait test_rng 0 (\<lambda>_. 0) MAX_RND_LEN"

text \<open>A 40-byte data message with distinct payload bytes.\<close>

definition data_msg :: "u8 list" where
  "data_msg = 4 # 0 # 0 # 0 # map of_nat [4..<40]"

definition data_msg_enc :: mem where
  "data_msg_enc = fst (obfs_wg test_hash (of_bytes data_msg) 40 (test_ob\<lparr>rnd := test_rnd\<rparr>) test_key)"

text \<open>
  A 148-byte handshake initiation whose mac2 starts with four zero bytes and is not
  all zero (byte 136 is 1).
\<close>

definition hsi_partial :: "u8 list" where
  "hsi_partial = 1 # replicate 135 0 @ 1 # replicate 11 0"

definition hsi_partial_enc :: mem where
  "hsi_partial_enc =
     fst (obfs_wg test_hash (of_bytes hsi_partial) 148 (test_ob\<lparr>rnd := test_rnd\<rparr>) test_key)"

text \<open>A 300-byte data message, for the narrow range of the selector.\<close>

definition big_msg :: "u8 list" where
  "big_msg = 4 # replicate 299 0"

definition big_msg_enc :: mem where
  "big_msg_enc =
     fst (obfs_wg test_hash (of_bytes big_msg) 300 (test_ob\<lparr>rnd := test_rnd\<rparr>) test_key)"

text \<open>A 32-byte keepalive, and a handshake initiation whose mac2 starts with 7.\<close>

definition keepalive_msg :: "u8 list" where
  "keepalive_msg = 4 # replicate 31 0"

definition hsi_set :: "u8 list" where
  "hsi_set = 1 # replicate 131 0 @ 7 # replicate 15 0"

text \<open>
  Datagrams for \<open>xt_unobfs\<close>: 10 bytes and 4 bytes, both too short to hold a
  message, and two whose first byte makes \<open>test_hash\<close> recover the lengths 0 and 2.
\<close>

definition short_dgram :: "u8 list" where
  "short_dgram = replicate 10 9"

definition tiny_dgram :: "u8 list" where
  "tiny_dgram = [1, 2, 3, 4]"

definition len0_dgram :: "u8 list" where
  "len0_dgram = 81 # replicate 31 0"

definition len2_dgram :: "u8 list" where
  "len2_dgram = 83 # replicate 33 0"



text \<open>The data message encoded from the \<open>obfs_buf\<close> whose \<open>rnd_len\<close> holds 9.\<close>

definition data_msg_stale_enc :: mem where
  "data_msg_stale_enc =
     fst (obfs_wg test_hash (of_bytes data_msg) 40 (stale_ob\<lparr>rnd := test_rnd\<rparr>) test_key)"

section \<open>The memory loops in closed form\<close>

lemma memcpy_apply:
  "memcpy m dst src n j = (if dst \<le> j \<and> j < dst + int n then src (nat (j - dst)) else m j)"
proof (induction n arbitrary: j)
  case 0
  then show ?case by (auto simp: memcpy_def)
next
  case (Suc n)
  have "memcpy m dst src (Suc n) = (memcpy m dst src n)(dst + int n := src n)"
    by (simp add: memcpy_def)
  then show ?case using Suc by (auto simp: nat_diff_distrib')
qed

lemma xor_loop_apply:
  "fold (\<lambda>i m'. m'(int i := m' (int i) XOR out i)) [0..<n] m j
     = (if 0 \<le> j \<and> j < int n then m j XOR out (nat j) else m j)"
  by (induction n arbitrary: j) auto

lemma xor16_apply:
  "xor16 m out j = (if 0 \<le> j \<and> j < 16 then m j XOR out (nat j) else m j)"
  unfolding xor16_def by (simp add: xor_loop_apply)

lemma xor_xor_same: "(a XOR b) XOR b = (a :: u8)"
  by (simp add: xor.assoc)

lemma shift_tail_loop:
  assumes "0 \<le> rl"
  shows "fold (\<lambda>i m'. m'(len - 1 + rl - int i := m' (len - 1 - int i))) [0..<k] m j
     = (if len + rl - int k \<le> j \<and> j < len + rl then m (j - rl) else m j)"
proof (induction k arbitrary: j)
  case 0
  then show ?case by auto
next
  case (Suc k)
  let ?f = "\<lambda>i m'. m'(len - 1 + rl - int i := m' (len - 1 - int i))"
  let ?mk = "fold ?f [0..<k] m"
  have step: "fold ?f [0..<Suc k] m = ?mk(len - 1 + rl - int k := ?mk (len - 1 - int k))"
    by simp
  have src: "?mk (len - 1 - int k) = m (len - 1 - int k)"
    using assms by (simp add: Suc.IH)
  show ?case
  proof (cases "j = len - 1 + rl - int k")
    case True
    then have "j - rl = len - 1 - int k" by simp
    with True src show ?thesis unfolding step using assms by simp
  next
    case False
    then show ?thesis unfolding step using assms by (simp add: Suc.IH)
  qed
qed

lemma shift_tail_apply:
  assumes "0 \<le> rl"
  shows "shift_tail m len rl j = (if rl \<le> j \<and> j < len + rl then m (j - rl) else m j)"
  unfolding shift_tail_def using assms by (cases "0 \<le> len") (auto simp: shift_tail_loop)

lemma shift_head_loop:
  assumes "0 \<le> rl"
  shows "fold (\<lambda>i m'. m'(int i := m' (rl + int i))) [0..<k] m j
     = (if 0 \<le> j \<and> j < int k then m (j + rl) else m j)"
  using assms by (induction k arbitrary: j) (auto simp: add.commute)

lemma shift_head_apply:
  assumes "0 \<le> rl"
  shows "shift_head m rl n j = (if 0 \<le> j \<and> j < n then m (j + rl) else m j)"
  unfolding shift_head_def using assms by (auto simp: shift_head_loop)

lemma load_u32_zero_iff:
  "load_u32 m a = 0 \<longleftrightarrow> m a = 0 \<and> m (a + 1) = 0 \<and> m (a + 2) = 0 \<and> m (a + 3) = 0"
proof -
  let ?n = "unat (m a) + 2 ^ 8 * unat (m (a + 1)) + 2 ^ 16 * unat (m (a + 2))
                  + 2 ^ 24 * unat (m (a + 3))"
  have b: "unat (m a) < 256" "unat (m (a+1)) < 256" "unat (m (a+2)) < 256" "unat (m (a+3)) < 256"
    using unsigned_less [of "m a"] unsigned_less [of "m (a+1)"]
      unsigned_less [of "m (a+2)"] unsigned_less [of "m (a+3)"] by simp_all
  then have lt: "?n < 2 ^ 32" by simp
  have "load_u32 m a = 0 \<longleftrightarrow> ?n = 0"
  proof -
    have "(2::nat) ^ 32 dvd ?n \<longleftrightarrow> ?n = 0"
      using lt nat_dvd_not_less by (cases "?n = 0") auto
    then show ?thesis unfolding load_u32_def word_of_nat_eq_0_iff by simp
  qed
  then show ?thesis by (auto simp: unat_eq_0)
qed

lemma load_cong:
  assumes "\<And>i. i < n \<Longrightarrow> m (a + int i) = m' (a' + int i)"
  shows "load m a n = load m' a' n"
  using assms by (simp add: load_def)

lemma load_zero_nth:
  assumes "load m a n = replicate n 0" "a \<le> j" "j < a + int n"
  shows "m j = 0"
proof -
  have "nat (j - a) < n" using assms(2,3) by linarith
  then have "load m a n ! nat (j - a) = m (a + int (nat (j - a)))"
    by (simp add: load_def)
  with assms show ?thesis by simp
qed

lemma payload_cong:
  assumes "\<And>j. 0 \<le> j \<Longrightarrow> j < len \<Longrightarrow> A j = B j"
  shows "payload A len = payload B len"
  using assms by (simp add: payload_def)

lemma payload_nth:
  assumes "0 \<le> j" "j < len"
  shows "payload m len ! nat j = m j"
  using assms by (simp add: payload_def)

section \<open>The padding-length selector\<close>

lemma scan_rnd_result:
  "scan_rnd buf lo hi i = r \<Longrightarrow> r \<noteq> 0 \<Longrightarrow> lo \<le> r \<and> r \<le> hi"
proof (induction buf lo hi i rule: scan_rnd.induct)
  case (1 buf min_len max_len i)
  then show ?case
    by (subst (asm) (2) scan_rnd.simps) (auto split: if_splits)
qed

lemma scan_rnd_source:
  "scan_rnd buf lo hi i = r \<Longrightarrow> r \<noteq> 0 \<Longrightarrow> \<exists>j. j < MAX_RND_LEN \<and> buf j = r"
proof (induction buf lo hi i rule: scan_rnd.induct)
  case (1 buf min_len max_len i)
  then show ?case
    by (subst (asm) (2) scan_rnd.simps) (auto split: if_splits)
qed

lemma scan_rnd_hit:
  assumes "i \<le> j" "j < MAX_RND_LEN" "lo \<le> buf j" "buf j \<le> hi"
  shows "lo \<le> scan_rnd buf lo hi i \<and> scan_rnd buf lo hi i \<le> hi"
  using assms
proof (induction buf lo hi i rule: scan_rnd.induct)
  case (1 buf min_len max_len i)
  show ?case
  proof (cases "buf i \<ge> min_len \<and> buf i \<le> max_len")
    case True
    with 1 show ?thesis by (subst scan_rnd.simps, subst (2) scan_rnd.simps) simp
  next
    case False
    with 1 have "i \<noteq> j" by auto
    with 1 False show ?thesis 
      by (subst scan_rnd.simps, subst (2) scan_rnd.simps) simp
  qed
qed

lemma get_random_insert_sound_aux:
  assumes "get_random_insert rng pos buf lo hi = Some y"
  shows "lo \<le> fst (snd y) \<and> fst (snd y) \<le> hi \<and> fst (snd y) \<noteq> 0"
proof (rule get_random_insert.raw_induct
    [where P = "\<lambda>rng pos buf lo hi y. lo \<le> fst (snd y) \<and> fst (snd y) \<le> hi \<and> fst (snd y) \<noteq> 0",
      OF _ assms])
  fix f :: "(nat \<Rightarrow> u8) \<Rightarrow> nat \<Rightarrow> (nat \<Rightarrow> u8) \<Rightarrow> u8 \<Rightarrow> u8 \<Rightarrow> ((nat \<Rightarrow> u8) \<times> u8 \<times> nat) option"
  fix rng pos buf lo hi y
  assume IH: "\<And>rng pos buf lo hi y. f rng pos buf lo hi = Some y \<Longrightarrow>
                 lo \<le> fst (snd y) \<and> fst (snd y) \<le> hi \<and> fst (snd y) \<noteq> 0"
  assume eq: "(let buf' = get_random_bytes_wait rng pos buf MAX_RND_LEN;
                   r = scan_rnd buf' lo hi 0
               in if 0 < r then Some (buf', r, pos + MAX_RND_LEN)
                  else f rng (pos + MAX_RND_LEN) buf' lo hi) = Some y"
  let ?b = "get_random_bytes_wait rng pos buf MAX_RND_LEN"
  let ?r = "scan_rnd ?b lo hi 0"
  show "lo \<le> fst (snd y) \<and> fst (snd y) \<le> hi \<and> fst (snd y) \<noteq> 0"
  proof (cases "0 < ?r")
    case True
    with eq have "fst (snd y) = ?r" by (auto simp add: Let_def)
    with True scan_rnd_result [of ?b lo hi 0 ?r] show ?thesis
      by (simp add: word_greater_zero_iff)
  next
    case False
    with eq have "f rng (pos + MAX_RND_LEN) ?b lo hi = Some y"
      by (simp add: Let_def)
    then show ?thesis by (rule IH)
  qed
qed

lemma get_random_insert_sound:
  assumes "get_random_insert rng pos buf lo hi = Some (buf', r, pos')"
  shows "lo \<le> r \<and> r \<le> hi \<and> r \<noteq> 0"
  using get_random_insert_sound_aux [OF assms] by simp

lemma get_random_insert_terminates:
  assumes "1 \<le> lo" "i < MAX_RND_LEN" "lo \<le> rng (pos + MAX_RND_LEN * n + i)"
    "rng (pos + MAX_RND_LEN * n + i) \<le> hi"
  shows "\<exists>res. get_random_insert rng pos buf lo hi = Some res"
  using assms
proof (induction n arbitrary: pos buf)
  case 0
  let ?b = "get_random_bytes_wait rng pos buf MAX_RND_LEN"
  have "lo \<le> ?b i" "?b i \<le> hi" using 0 by (simp_all add: get_random_bytes_wait_def)
  then have "lo \<le> scan_rnd ?b lo hi 0"
    using scan_rnd_hit [where i=0 and j=i and buf="?b" and lo=lo and hi=hi] \<open>i < MAX_RND_LEN\<close> by simp
  then have "1 \<le> scan_rnd ?b lo hi 0" using \<open>1 \<le> lo\<close> by simp
  then have "0 < scan_rnd ?b lo hi 0"
    by (metis word_greater_zero_iff word_le_0_iff zero_neq_one)
  then show ?case by (subst get_random_insert.simps) (simp add: Let_def)
next
  case (Suc n)
  let ?b = "get_random_bytes_wait rng pos buf MAX_RND_LEN"
  have "pos + MAX_RND_LEN * Suc n + i = (pos + MAX_RND_LEN) + MAX_RND_LEN * n + i" by simp
  with Suc.prems have "\<exists>res. get_random_insert rng (pos + MAX_RND_LEN) ?b lo hi = Some res"
    by (intro Suc.IH) (simp_all add: add.assoc)
  then show ?case by (subst get_random_insert.simps) (simp add: Let_def)
qed

lemma get_random_insert_hit:
  assumes "get_random_insert rng pos buf lo hi = Some y"
  shows "\<exists>n i. i < MAX_RND_LEN \<and> lo \<le> rng (pos + MAX_RND_LEN * n + i)
           \<and> rng (pos + MAX_RND_LEN * n + i) \<le> hi"
proof (rule get_random_insert.raw_induct
    [where P = "\<lambda>rng pos buf lo hi y. \<exists>n i. i < MAX_RND_LEN \<and> lo \<le> rng (pos + MAX_RND_LEN * n + i)
           \<and> rng (pos + MAX_RND_LEN * n + i) \<le> hi",
      OF _ assms])
  fix f :: "(nat \<Rightarrow> u8) \<Rightarrow> nat \<Rightarrow> (nat \<Rightarrow> u8) \<Rightarrow> u8 \<Rightarrow> u8 \<Rightarrow> ((nat \<Rightarrow> u8) \<times> u8 \<times> nat) option"
  fix rng pos buf lo hi y
  assume IH: "\<And>rng pos buf lo hi y. f rng pos buf lo hi = Some y \<Longrightarrow>
     \<exists>n i. i < MAX_RND_LEN \<and> lo \<le> rng (pos + MAX_RND_LEN * n + i)
           \<and> rng (pos + MAX_RND_LEN * n + i) \<le> hi"
  assume eq: "(let buf' = get_random_bytes_wait rng pos buf MAX_RND_LEN;
                   r = scan_rnd buf' lo hi 0
               in if 0 < r then Some (buf', r, pos + MAX_RND_LEN)
                  else f rng (pos + MAX_RND_LEN) buf' lo hi) = Some y"
  let ?b = "get_random_bytes_wait rng pos buf MAX_RND_LEN"
  let ?r = "scan_rnd ?b lo hi 0"
  show "\<exists>n i. i < MAX_RND_LEN \<and> lo \<le> rng (pos + MAX_RND_LEN * n + i)
           \<and> rng (pos + MAX_RND_LEN * n + i) \<le> hi"
  proof (cases "0 < ?r")
    case True
    then have nz: "?r \<noteq> 0" by (simp add: word_greater_zero_iff)
    from scan_rnd_source [OF refl nz] obtain j where j: "j < MAX_RND_LEN" "?b j = ?r" by blast
    from scan_rnd_result [OF refl nz] have "lo \<le> ?r" "?r \<le> hi" by simp_all
    with j have "lo \<le> rng (pos + MAX_RND_LEN * 0 + j)" "rng (pos + MAX_RND_LEN * 0 + j) \<le> hi"
      by (simp_all add: get_random_bytes_wait_def)
    with j(1) show ?thesis by blast
  next
    case False
    with eq have "f rng (pos + MAX_RND_LEN) ?b lo hi = Some y"
      by (simp add: Let_def)
    from IH [OF this] obtain n i where ni: "i < MAX_RND_LEN"
      "lo \<le> rng (pos + MAX_RND_LEN + MAX_RND_LEN * n + i)"
      "rng (pos + MAX_RND_LEN + MAX_RND_LEN * n + i) \<le> hi" by blast
    have "pos + MAX_RND_LEN + MAX_RND_LEN * n + i = pos + MAX_RND_LEN * Suc n + i" by simp
    with ni show ?thesis by metis
  qed
qed

lemma get_random_insert_test:
  assumes "hi = 8 \<or> hi = 32"
  shows "get_random_insert test_rng 0 b 4 hi = Some (get_random_bytes_wait test_rng 0 b MAX_RND_LEN, 4, 32)"
proof -
  have "scan_rnd (get_random_bytes_wait test_rng 0 b MAX_RND_LEN) 4 hi 0 = 4"
    using assms
    by (auto simp add: scan_rnd.simps get_random_bytes_wait_def test_rng_def MAX_RND_LEN_def
        word_le_nat_alt)
  then show ?thesis
    by (subst get_random_insert.simps) (simp add: Let_def MAX_RND_LEN_def)
qed

section \<open>Obfuscation in closed form\<close>

lemma obfs_mac2_keeps:
  "rnd (snd (obfs_mac2 h buf len ob k)) = rnd ob"
  "rnd_len (snd (obfs_mac2 h buf len ob k)) = rnd_len ob"
  by (simp_all add: obfs_mac2_def Let_def)

lemma obfs_mac2_other:
  assumes "buf 0 \<noteq> WG_HANDSHAKE_INIT" "buf 0 \<noteq> WG_HANDSHAKE_RESP"
  shows "obfs_mac2 h buf len ob key = (buf, ob)"
  using assms by (simp add: obfs_mac2_def Let_def)

lemma obfs_wg_apply:
  fixes h buf len ob key
  defines "m1 \<equiv> fst (obfs_mac2 h buf len ob key)"
  defines "ks \<equiv> h (load m1 (len - 8) 8) key"
  defines "L \<equiv> uint (rnd_len ob)"
  shows "fst (obfs_wg h buf len ob key) j =
     (if 0 \<le> j \<and> j < L
      then (if j = 0 then rnd_len ob XOR ks 16
            else if j < int MAX_RND_LEN then rnd ob (nat j)
            else ks (nat j - MAX_RND_LEN))
      else if L \<le> j \<and> j < len + L then xor16 m1 ks (j - L)
      else xor16 m1 ks j)"
proof -
  obtain b1 o1 where p: "obfs_mac2 h buf len ob key = (b1, o1)" by (cases "obfs_mac2 h buf len ob key")
  have k: "rnd o1 = rnd ob" "rnd_len o1 = rnd_len ob"
    using obfs_mac2_keeps [of h buf len ob key] p by simp_all
  have L0: "0 \<le> L" by (simp add: L_def)
  have m1: "m1 = b1" by (simp add: m1_def p)
  show ?thesis
    unfolding obfs_wg_def p m1 ks_def L_def
    by (simp add: Let_def k memcpy_apply shift_tail_apply CHACHA8_INPUT_SIZE_def m1 nat_less_iff
        rnd_bytes_def MAX_RND_LEN_def)
qed

lemma obfs_wg_frame:
  assumes "buf 0 \<noteq> WG_HANDSHAKE_INIT" "buf 0 \<noteq> WG_HANDSHAKE_RESP"
    and "uint (rnd_len ob) + 16 \<le> j" "j < len + uint (rnd_len ob)"
  shows "fst (obfs_wg h buf len ob key) j = buf (j - uint (rnd_len ob))"
proof -
  have "0 \<le> uint (rnd_len ob)" by simp
  with assms(3,4) show ?thesis
    by (simp add: obfs_wg_apply obfs_mac2_other assms(1,2) xor16_apply)
qed

lemma xt_obfs_continueD:
  assumes "xt_obfs h rng room ob key buf len = Some (XT_CONTINUE, buf', len')"
  obtains rnd' rl pos where
    "\<not> random_drop_wg_keepalive h buf len key"
    "get_random_insert rng 0 (rnd ob) (word_of_int MIN_RND_LEN)
       (word_of_int (if len > 200 then 8 else int MAX_RND_LEN)) = Some (rnd', rl, pos)"
    "room"
    "buf' = fst (obfs_wg h buf len (ob\<lparr>rnd := rnd'\<rparr>) key)"
    "len' = len + uint rl"
  using assms unfolding xt_obfs_def Let_def
  by (auto split: if_splits option.splits)

section \<open>Restoration in closed form\<close>

lemma restore_mac2_cong:
  assumes "X 0 = Y 0" "X j = Y j"
  shows "restore_mac2 X j = restore_mac2 Y j"
  using assms by (simp add: restore_mac2_def Let_def memcpy_apply)

lemma restore_mac2_outside:
  assumes "j \<noteq> 0" "\<not> (76 \<le> j \<and> j < 92)" "\<not> (132 \<le> j \<and> j < 148)"
  shows "restore_mac2 X j = X j"
  using assms
  by (auto simp add: restore_mac2_def Let_def memcpy_apply hsi_mac2_def hsr_mac2_def
      WG_COOKIE_LEN_def)

text \<open>
  \<open>restore_mac2\<close> takes no length: a buffer whose type byte is 0x11 has the 16
  bytes at offset 132 cleared, however long the message is.
\<close>

lemma restore_mac2_clears:
  assumes "X 0 = OBFS_WG_HANDSHAKE_INIT" "hsi_mac2 \<le> j" "j < hsi_mac2 + int WG_COOKIE_LEN"
  shows "restore_mac2 X j = 0"
  using assms
  by (simp add: restore_mac2_def Let_def memcpy_apply hsi_mac2_def WG_COOKIE_LEN_def zero_mac2_def)

lemma restore_wg_fail:
  assumes "uint (buf 0 XOR h (load buf (len - 8) 8) key 16) + 32 > len"
  shows "restore_wg h buf len key = (- 1, buf(0 := buf 0 XOR h (load buf (len - 8) 8) key 16))"
  using assms by (simp add: restore_wg_def Let_def CHACHA8_INPUT_SIZE_def WG_MIN_LEN_def)

lemma restore_wg_pass:
  assumes "uint (buf 0 XOR h (load buf (len - 8) 8) key 16) + 32 \<le> len"
  shows "restore_wg h buf len key =
     (uint (buf 0 XOR h (load buf (len - 8) 8) key 16),
      restore_mac2 (xor16 (shift_head (buf(0 := buf 0 XOR h (load buf (len - 8) 8) key 16))
         (uint (buf 0 XOR h (load buf (len - 8) 8) key 16))
         (len - uint (buf 0 XOR h (load buf (len - 8) 8) key 16)))
        (h (load buf (len - 8) 8) key)))"
  using assms by (simp add: restore_wg_def Let_def CHACHA8_INPUT_SIZE_def WG_MIN_LEN_def)


lemma xt_unobfs_reads_in_bounds:
  assumes "8 \<le> len" and "a \<in> set (xt_unobfs_reads h writable key buf len)"
  shows "0 \<le> a \<and> a < len"
proof -
  define rl where "rl = uint (buf 0 XOR h (load buf (len - 8) 8) key 16)"
  have rl0: "0 \<le> rl" by (simp add: rl_def)
  from assms(2) have "a \<in> set (restore_wg_reads h buf len key)"
    by (auto simp: xt_unobfs_reads_def split: if_splits)
  then consider (seed) i where "i < 8" "a = len - 8 + int i" | (zero) "a = 0"
    | (shift) i where "rl + 32 \<le> len" "i < nat (len - rl)" "a = rl + int i"
    | (mask) i where "rl + 32 \<le> len" "i < 16" "a = int i"
    by (auto simp: restore_wg_reads_def Let_def CHACHA8_INPUT_SIZE_def WG_MIN_LEN_def
        rl_def [symmetric] split: if_splits)
  then show ?thesis
  proof cases
    case seed then show ?thesis using assms(1) by simp
  next
    case zero then show ?thesis using assms(1) by simp
  next
    case shift then show ?thesis using rl0 by linarith
  next
    case mask then show ?thesis using rl0 by linarith
  qed
qed

section \<open>Restoring an obfuscated message\<close>

lemma restore_obfs_core:
  fixes h buf len ob key
  assumes len: "32 \<le> len" and nz: "rnd_len ob \<noteq> 0"
  defines "m1 \<equiv> fst (obfs_mac2 h buf len ob key)"
  defines "E \<equiv> fst (obfs_wg h buf len ob key)"
  defines "L \<equiv> uint (rnd_len ob)"
  shows "fst (restore_wg h E (len + L) key) = L"
    and "0 \<le> j \<Longrightarrow> j < len \<Longrightarrow> snd (restore_wg h E (len + L) key) j = restore_mac2 m1 j"
proof -
  define ks where "ks = h (load m1 (len - 8) 8) key"
  have Lpos: "0 < L"
  proof -
    have "uint (rnd_len ob) \<noteq> 0" using nz by (simp add: uint_0_iff)
    moreover have "0 \<le> uint (rnd_len ob)" by simp
    ultimately show ?thesis unfolding L_def by linarith
  qed
  have E: "\<And>j. E j =
     (if 0 \<le> j \<and> j < L
      then (if j = 0 then rnd_len ob XOR ks 16
            else if j < int MAX_RND_LEN then rnd ob (nat j)
            else ks (nat j - MAX_RND_LEN))
      else if L \<le> j \<and> j < len + L then xor16 m1 ks (j - L)
      else xor16 m1 ks j)"
    unfolding E_def m1_def ks_def L_def by (rule obfs_wg_apply)
  have Emid: "E j = xor16 m1 ks (j - L)" if "L \<le> j" "j < len + L" for j
    using that by (simp add: E)
  have seed: "load E (len + L - 8) 8 = load m1 (len - 8) 8"
  proof (rule load_cong)
    fix i :: nat assume "i < 8"
    let ?j = "len + L - 8 + int i"
    have b: "L \<le> ?j" "?j < len + L" using len \<open>i < 8\<close> by linarith+
    have c: "?j - L = len - 8 + int i" by simp
    have "E ?j = xor16 m1 ks (len - 8 + int i)"
      using Emid [OF b] unfolding c .
    also have "\<dots> = m1 (len - 8 + int i)"
      using len by (simp add: xor16_apply)
    finally show "E ?j = m1 (len - 8 + int i)" .
  qed
  have E0: "E 0 = rnd_len ob XOR ks 16" using Lpos by (simp add: E)
  define buf1 where "buf1 = E(0 := rnd_len ob)"
  have prn: "h (load E (len + L - int CHACHA8_INPUT_SIZE) CHACHA8_INPUT_SIZE) key = ks"
    by (simp add: CHACHA8_INPUT_SIZE_def seed ks_def)
  have b0: "E 0 XOR ks 16 = rnd_len ob" by (simp add: E0 xor_xor_same)
  have unf: "restore_wg h E (len + L) key
      = (L, restore_mac2 (xor16 (shift_head buf1 L len) ks))"
    unfolding restore_wg_def Let_def prn
    using len by (simp add: b0 L_def [symmetric] buf1_def WG_MIN_LEN_def)
  show "fst (restore_wg h E (len + L) key) = L" by (simp add: unf)
  have b3: "xor16 (shift_head buf1 L len) ks i = m1 i" if "0 \<le> i" "i < len" for i
    using that Lpos len
    by (simp add: xor16_apply shift_head_apply buf1_def Emid xor_xor_same)
  show "snd (restore_wg h E (len + L) key) j = restore_mac2 m1 j" if "0 \<le> j" "j < len"
    unfolding unf snd_conv using that len by (intro restore_mac2_cong b3) simp_all
qed

lemma restore_obfs_mac2:
  assumes wg: "wg_message buf len" and ok: "handshake_mac2_ok buf"
    and j: "0 \<le> j" "j < len"
  shows "restore_mac2 (fst (obfs_mac2 h buf len ob key)) j = buf j"
proof -
  consider (init) "buf 0 = 0x01" "len = 148" | (resp) "buf 0 = 0x02" "len = 92"
    | (cookie) "buf 0 = 0x03" | (data) "buf 0 = 0x04"
    using wg by (auto simp: wg_message_def WG_HANDSHAKE_INIT_def WG_HANDSHAKE_RESP_def
        WG_COOKIE_def WG_DATA_def)
  then show ?thesis
  proof cases
    case init
    show ?thesis
    proof (cases "load_u32 buf hsi_mac2 = 0")
      case True
      with ok init have z: "load buf hsi_mac2 WG_COOKIE_LEN = replicate WG_COOKIE_LEN 0"
        by (simp add: handshake_mac2_ok_def mac2_zero_or_set_def WG_HANDSHAKE_INIT_def)
      have "buf j = 0" if "132 \<le> j" "j < 148"
        using load_zero_nth [OF z, of j] that by (simp add: hsi_mac2_def WG_COOKIE_LEN_def)
      with init True show ?thesis
        by (simp add: obfs_mac2_def restore_mac2_def Let_def memcpy_apply
            WG_HANDSHAKE_INIT_def OBFS_WG_HANDSHAKE_INIT_def OBFS_WG_HANDSHAKE_RESP_def
            hsi_mac2_def WG_COOKIE_LEN_def zero_mac2_def)
    next
      case False
      with init show ?thesis
        by (simp add: obfs_mac2_def restore_mac2_def Let_def
            WG_HANDSHAKE_INIT_def OBFS_WG_HANDSHAKE_INIT_def OBFS_WG_HANDSHAKE_RESP_def)
    qed
  next
    case resp
    show ?thesis
    proof (cases "load_u32 buf hsr_mac2 = 0")
      case True
      with ok resp have z: "load buf hsr_mac2 WG_COOKIE_LEN = replicate WG_COOKIE_LEN 0"
        by (simp add: handshake_mac2_ok_def mac2_zero_or_set_def WG_HANDSHAKE_INIT_def
            WG_HANDSHAKE_RESP_def)
      have "buf j = 0" if "76 \<le> j" "j < 92"
        using load_zero_nth [OF z, of j] that by (simp add: hsr_mac2_def WG_COOKIE_LEN_def)
      with resp True show ?thesis
        by (simp add: obfs_mac2_def restore_mac2_def Let_def memcpy_apply
            WG_HANDSHAKE_INIT_def WG_HANDSHAKE_RESP_def
            OBFS_WG_HANDSHAKE_INIT_def OBFS_WG_HANDSHAKE_RESP_def
            hsr_mac2_def WG_COOKIE_LEN_def zero_mac2_def)
    next
      case False
      with resp show ?thesis
        by (simp add: obfs_mac2_def restore_mac2_def Let_def
            WG_HANDSHAKE_INIT_def WG_HANDSHAKE_RESP_def
            OBFS_WG_HANDSHAKE_INIT_def OBFS_WG_HANDSHAKE_RESP_def)
    qed
  next
    case cookie
    then show ?thesis
      by (simp add: obfs_mac2_def restore_mac2_def Let_def
          WG_HANDSHAKE_INIT_def WG_HANDSHAKE_RESP_def
          OBFS_WG_HANDSHAKE_INIT_def OBFS_WG_HANDSHAKE_RESP_def)
  next
    case data
    then show ?thesis
      by (simp add: obfs_mac2_def restore_mac2_def Let_def
          WG_HANDSHAKE_INIT_def WG_HANDSHAKE_RESP_def
          OBFS_WG_HANDSHAKE_INIT_def OBFS_WG_HANDSHAKE_RESP_def)
  qed
qed

lemma xt_unobfs_obfs_wg:
  assumes len: "32 \<le> len" and nz: "rnd_len ob \<noteq> 0"
  shows "xt_unobfs h True key (fst (obfs_wg h buf len ob key)) (len + uint (rnd_len ob))
    = (XT_CONTINUE,
       snd (restore_wg h (fst (obfs_wg h buf len ob key)) (len + uint (rnd_len ob)) key), len)"
proof -
  let ?E = "fst (obfs_wg h buf len ob key)" and ?L = "uint (rnd_len ob)"
  obtain r M where rw: "restore_wg h ?E (len + ?L) key = (r, M)"
    by (cases "restore_wg h ?E (len + ?L) key")
  with restore_obfs_core(1) [OF len nz, of h buf key] have r: "r = ?L" by simp
  then have "\<not> r < 0" "len + ?L - r = len" by simp_all
  moreover have "\<not> len + ?L < MIN_RND_LEN"
    using len uint_ge_0 [of "rnd_len ob"] unfolding MIN_RND_LEN_def by linarith
  ultimately show ?thesis unfolding xt_unobfs_def rw by simp
qed

section \<open>Claim C1: decoding an encoded message\<close>

text \<open>
  Claim C1, as amended. Let \<open>buf\<close> hold a plain WireGuard message of \<open>len\<close>
  bytes (type 1 to 4, at least 32 bytes, 148 or 92 bytes for the handshake kinds)
  whose mac2 field, for the handshake kinds, is all zero or starts with a non-zero
  32-bit word. If \<open>xt_obfs\<close> returns \<open>XT_CONTINUE\<close> with a datagram (so the
  keepalive policy did not drop the message, the selector returned and the buffer
  could grow), and the \<open>rnd_len\<close> field that \<open>obfs_wg\<close> reads holds the length
  the datagram grew by, then \<open>xt_unobfs\<close> with the same key accepts the datagram and
  returns \<open>len\<close> bytes equal to the message, an all-zero mac2 included.
\<close>

theorem decode_encode_roundtrip:
  assumes wg: "wg_message buf len" and ok: "handshake_mac2_ok buf"
    and enc: "xt_obfs h rng room ob key buf len = Some (XT_CONTINUE, buf', len')"
    and fld: "len' = len + uint (rnd_len ob)"
  shows "fst (xt_unobfs h True key buf' len') = XT_CONTINUE
     \<and> snd (snd (xt_unobfs h True key buf' len')) = len
     \<and> payload (fst (snd (xt_unobfs h True key buf' len'))) len = payload buf len"
proof -
  from enc obtain rnd' rl pos where
    sel: "get_random_insert rng 0 (rnd ob) (word_of_int MIN_RND_LEN)
       (word_of_int (if len > 200 then 8 else int MAX_RND_LEN)) = Some (rnd', rl, pos)"
    and buf': "buf' = fst (obfs_wg h buf len (ob\<lparr>rnd := rnd'\<rparr>) key)"
    and len': "len' = len + uint rl"
    by (rule xt_obfs_continueD)
  let ?ob = "ob\<lparr>rnd := rnd'\<rparr>"
  have rl: "rl = rnd_len ?ob" using fld len' by (simp add: word_uint_eq_iff)
  have nz: "rnd_len ?ob \<noteq> 0" using get_random_insert_sound [OF sel] rl by simp
  have len: "32 \<le> len" using wg by (simp add: wg_message_def WG_MIN_LEN_def)
  have L: "len' = len + uint (rnd_len ?ob)" using fld by simp
  have r2: "snd (restore_wg h buf' len' key) j = buf j" if "0 \<le> j" "j < len" for j
    unfolding buf' L
    using restore_obfs_core(2) [OF len nz that, of h buf key]
      restore_obfs_mac2 [OF wg ok that, of h ?ob key] by simp
  have "payload (snd (restore_wg h buf' len' key)) len = payload buf len"
    by (rule payload_cong) (rule r2)
  then show ?thesis
    using xt_unobfs_obfs_wg [OF len nz, of h key buf] unfolding buf' L by simp
qed

theorem decode_encode_roundtrip_witness:
  "wg_message (of_bytes data_msg) 40 \<and> handshake_mac2_ok (of_bytes data_msg)
   \<and> xt_obfs test_hash test_rng True test_ob test_key (of_bytes data_msg) 40
        = Some (XT_CONTINUE, data_msg_enc, 44)
   \<and> (44 :: int) = 40 + uint (rnd_len test_ob)
   \<and> fst (xt_unobfs test_hash True test_key data_msg_enc 44) = XT_CONTINUE
   \<and> snd (snd (xt_unobfs test_hash True test_key data_msg_enc 44)) = 40
   \<and> payload (fst (snd (xt_unobfs test_hash True test_key data_msg_enc 44))) 40
        = payload (of_bytes data_msg) 40"
proof -
  have b0: "of_bytes data_msg 0 = 4" by (simp add: of_bytes_def data_msg_def)
  have wg: "wg_message (of_bytes data_msg) 40"
    by (simp add: wg_message_def b0 WG_DATA_def WG_MIN_LEN_def)
  have ok: "handshake_mac2_ok (of_bytes data_msg)"
    by (simp add: handshake_mac2_ok_def b0 WG_HANDSHAKE_INIT_def WG_HANDSHAKE_RESP_def)
  have enc: "xt_obfs test_hash test_rng True test_ob test_key (of_bytes data_msg) 40
        = Some (XT_CONTINUE, data_msg_enc, 44)"
    by (simp add: xt_obfs_def random_drop_wg_keepalive_def Let_def MIN_RND_LEN_def
        MAX_RND_LEN_def get_random_insert_test [unfolded MAX_RND_LEN_def]
        data_msg_enc_def test_rnd_def test_ob_def)
  have fld: "(44 :: int) = 40 + uint (rnd_len test_ob)" by (simp add: test_ob_def)
  from decode_encode_roundtrip [OF wg ok enc fld] wg ok enc fld show ?thesis by simp
qed

text \<open>
  The claim without the condition on mac2 fails: a handshake initiation whose mac2 is
  \<open>00 00 00 00 01 00 ...\<close> comes back with an all-zero mac2, although the
  \<open>rnd_len\<close> field holds the selected length 4.
\<close>

theorem decode_encode_roundtrip_counterexample:
  "wg_message (of_bytes hsi_partial) 148
   \<and> xt_obfs test_hash test_rng True test_ob test_key (of_bytes hsi_partial) 148
        = Some (XT_CONTINUE, hsi_partial_enc, 152)
   \<and> fst (xt_unobfs test_hash True test_key hsi_partial_enc 152) = XT_CONTINUE
   \<and> snd (snd (xt_unobfs test_hash True test_key hsi_partial_enc 152)) = 148
   \<and> payload (fst (snd (xt_unobfs test_hash True test_key hsi_partial_enc 152))) 148
        \<noteq> payload (of_bytes hsi_partial) 148"
proof -
  let ?ob = "test_ob\<lparr>rnd := test_rnd\<rparr>"
  let ?m = "of_bytes hsi_partial"
  have b0: "?m 0 = 1" by (simp add: of_bytes_def hsi_partial_def)
  have wg: "wg_message ?m 148"
    by (simp add: wg_message_def b0 WG_HANDSHAKE_INIT_def WG_MIN_LEN_def)
  have enc: "xt_obfs test_hash test_rng True test_ob test_key ?m 148
        = Some (XT_CONTINUE, hsi_partial_enc, 152)"
    by (simp add: xt_obfs_def random_drop_wg_keepalive_def Let_def MIN_RND_LEN_def WG_DATA_def b0
        MAX_RND_LEN_def get_random_insert_test [unfolded MAX_RND_LEN_def]
        hsi_partial_enc_def test_rnd_def test_ob_def)
  have len: "(32 :: int) \<le> 148" by simp
  have nz: "rnd_len ?ob \<noteq> 0" by (simp add: test_ob_def)
  have L: "uint (rnd_len ?ob) = 4" "uint (rnd_len test_ob) = 4" by (simp_all add: test_ob_def)
  have un: "xt_unobfs test_hash True test_key hsi_partial_enc 152
      = (XT_CONTINUE, snd (restore_wg test_hash hsi_partial_enc 152 test_key), 148)"
    using xt_unobfs_obfs_wg [OF len nz, of test_hash test_key ?m]
    by (simp add: L hsi_partial_enc_def)
  have "?m 132 = 0" "?m (132 + 1) = 0" "?m (132 + 2) = 0" "?m (132 + 3) = 0"
    by (simp_all add: of_bytes_def hsi_partial_def nth_append)
  then have z: "load_u32 ?m 132 = 0"
    unfolding load_u32_zero_iff by simp
  have m1: "fst (obfs_mac2 test_hash ?m 148 ?ob test_key) 0 = 0x11"
    by (simp add: obfs_mac2_def Let_def b0 z WG_HANDSHAKE_INIT_def memcpy_apply hsi_mac2_def)
  have "snd (restore_wg test_hash hsi_partial_enc 152 test_key) 136
      = restore_mac2 (fst (obfs_mac2 test_hash ?m 148 ?ob test_key)) 136"
    using restore_obfs_core(2) [OF len nz, of 136 test_hash ?m test_key]
    by (simp add: L hsi_partial_enc_def)
  also have "\<dots> = 0"
    by (simp add: restore_mac2_def Let_def m1 OBFS_WG_HANDSHAKE_INIT_def memcpy_apply
        hsi_mac2_def WG_COOKIE_LEN_def zero_mac2_def)
  finally have dec: "snd (restore_wg test_hash hsi_partial_enc 152 test_key) 136 = 0" .
  have orig: "?m 136 = 1"
    by (simp add: of_bytes_def hsi_partial_def nth_append)
  have "payload (snd (restore_wg test_hash hsi_partial_enc 152 test_key)) 148 \<noteq> payload ?m 148"
  proof
    assume "payload (snd (restore_wg test_hash hsi_partial_enc 152 test_key)) 148 = payload ?m 148"
    then have "payload (snd (restore_wg test_hash hsi_partial_enc 152 test_key)) 148 ! nat 136
        = payload ?m 148 ! nat 136" by simp
    then show False
      using dec orig payload_nth [of 136 148 ?m]
        payload_nth [of 136 148 "snd (restore_wg test_hash hsi_partial_enc 152 test_key)"]
      by simp
  qed
  with wg enc un show ?thesis by simp
qed

section \<open>Claim C2: buffers that are no WireGuard message\<close>




section \<open>Claim C3: rejected datagrams\<close>

text \<open>
  Claim C3, as amended. With a writable packet, \<open>xt_unobfs\<close> drops a datagram
  exactly when its length is below 4 or the recovered length \<open>L\<close> (byte 0 XOR
  keystream byte 16) satisfies \<open>L + 32 > len\<close>. A datagram shorter than 4 bytes is
  left untouched. A datagram that fails the size check is left with byte 0 overwritten
  by \<open>L\<close>, since \<open>restore_wg\<close> recovers the length in place before it tests it;
  every other byte is as before.
\<close>

theorem xt_unobfs_drop:
  "(fst (xt_unobfs h True key buf len) = NF_DROP \<longleftrightarrow>
      len < 4 \<or> uint (buf 0 XOR h (load buf (len - 8) 8) key 16) + 32 > len)
   \<and> (len < 4 \<longrightarrow> fst (snd (xt_unobfs h True key buf len)) = buf)
   \<and> (4 \<le> len \<and> uint (buf 0 XOR h (load buf (len - 8) 8) key 16) + 32 > len \<longrightarrow>
        fst (snd (xt_unobfs h True key buf len))
          = buf(0 := buf 0 XOR h (load buf (len - 8) 8) key 16))"
proof (cases "len < 4")
  case True
  then show ?thesis by (simp add: xt_unobfs_def MIN_RND_LEN_def)
next
  case ge: False
  show ?thesis
  proof (cases "uint (buf 0 XOR h (load buf (len - 8) 8) key 16) + 32 > len")
    case True
    with ge show ?thesis
      by (simp add: xt_unobfs_def MIN_RND_LEN_def restore_wg_fail)
  next
    case False
    then have "uint (buf 0 XOR h (load buf (len - 8) 8) key 16) + 32 \<le> len" by simp
    with ge False show ?thesis
      by (simp add: xt_unobfs_def MIN_RND_LEN_def restore_wg_pass)
  qed
qed

theorem xt_unobfs_drop_witness:
  "(3 :: int) < 4
   \<and> fst (snd (xt_unobfs test_hash True test_key (of_bytes tiny_dgram) 3)) = of_bytes tiny_dgram
   \<and> (10 :: int) \<ge> 4
   \<and> uint (of_bytes short_dgram 0 XOR test_hash (load (of_bytes short_dgram) (10 - 8) 8) test_key 16)
        + 32 > 10
   \<and> fst (snd (xt_unobfs test_hash True test_key (of_bytes short_dgram) 10))
        = (of_bytes short_dgram)
            (0 := of_bytes short_dgram 0
                  XOR test_hash (load (of_bytes short_dgram) (10 - 8) 8) test_key 16)"
proof -
  have a: "uint (of_bytes short_dgram 0
      XOR test_hash (load (of_bytes short_dgram) (10 - 8) 8) test_key 16) + 32 > 10"
    by code_simp
  from xt_unobfs_drop [of test_hash test_key "of_bytes short_dgram" 10] a
    xt_unobfs_drop [of test_hash test_key "of_bytes tiny_dgram" 3]
  show ?thesis by simp
qed

text \<open>
  The buffer is not byte-identical after a rejection: ten bytes 9 are dropped and come
  back with byte 0 equal to 144.
\<close>

theorem xt_unobfs_drop_counterexample:
  "fst (xt_unobfs test_hash True test_key (of_bytes short_dgram) 10) = NF_DROP
   \<and> payload (fst (snd (xt_unobfs test_hash True test_key (of_bytes short_dgram) 10))) 10
       = 144 # replicate 9 9
   \<and> payload (of_bytes short_dgram) 10 = replicate 10 9"
  by code_simp

section \<open>Claim C4: the addresses the restoration reads\<close>

text \<open>
  Claim C4 says that every read of a datagram of at least 4 bytes stays inside the
  datagram. That holds from 8 bytes on (\<open>xt_unobfs_reads_in_bounds\<close>). For 4 to 7
  bytes the seed of the keystream is read from \<open>buf + len - 8\<close>, which starts before
  the datagram: a 4-byte datagram has the addresses -4 to -1 read, the second half of
  the UDP header.
\<close>

theorem xt_unobfs_reads_tiny:
  "xt_unobfs_reads test_hash True test_key (of_bytes tiny_dgram) 4
     = [- 4, - 3, - 2, - 1, 0, 1, 2, 3, 0, 0]"
  by code_simp

section \<open>Claim C5: the length of an encoded datagram\<close>

theorem xt_obfs_length:
  assumes "xt_obfs h rng room ob key buf len = Some (XT_CONTINUE, buf', len')"
  shows "\<exists>rnd' rl pos.
           get_random_insert rng 0 (rnd ob) 4 (if len > 200 then 8 else 32) = Some (rnd', rl, pos)
           \<and> len' = len + uint rl
           \<and> 4 \<le> uint rl \<and> uint rl \<le> 32 \<and> (len > 200 \<longrightarrow> uint rl \<le> 8)"
proof -
  from assms obtain rnd' rl pos where
    sel: "get_random_insert rng 0 (rnd ob) (word_of_int MIN_RND_LEN)
       (word_of_int (if len > 200 then 8 else int MAX_RND_LEN)) = Some (rnd', rl, pos)"
    and len': "len' = len + uint rl"
    by (rule xt_obfs_continueD)
  from get_random_insert_sound [OF sel]
  have "4 \<le> rl" "rl \<le> (if len > 200 then 8 else 32)"
    by (simp_all add: MIN_RND_LEN_def MAX_RND_LEN_def split: if_splits)
  then have "4 \<le> uint rl" "uint rl \<le> (if len > 200 then 8 else 32)"
    by (simp_all add: word_le_def split: if_splits)
  moreover have "get_random_insert rng 0 (rnd ob) 4 (if len > 200 then 8 else 32) = Some (rnd', rl, pos)"
    using sel by (simp add: MIN_RND_LEN_def MAX_RND_LEN_def split: if_splits)
  ultimately show ?thesis using len' by (auto split: if_splits)
qed

theorem xt_obfs_length_witness:
  "xt_obfs test_hash test_rng True test_ob test_key (of_bytes big_msg) 300
        = Some (XT_CONTINUE, big_msg_enc, 304)
   \<and> (\<exists>rnd' rl pos.
           get_random_insert test_rng 0 (rnd test_ob) 4 8 = Some (rnd', rl, pos)
           \<and> (304 :: int) = 300 + uint rl
           \<and> 4 \<le> uint rl \<and> uint rl \<le> 32 \<and> uint rl \<le> 8)"
proof -
  have b0: "of_bytes big_msg 0 = 4" by (simp add: of_bytes_def big_msg_def)
  have enc: "xt_obfs test_hash test_rng True test_ob test_key (of_bytes big_msg) 300
        = Some (XT_CONTINUE, big_msg_enc, 304)"
    by (simp add: xt_obfs_def random_drop_wg_keepalive_def Let_def MIN_RND_LEN_def
        MAX_RND_LEN_def get_random_insert_test [unfolded MAX_RND_LEN_def]
        big_msg_enc_def test_rnd_def test_ob_def)
  from xt_obfs_length [OF enc] enc show ?thesis by simp
qed

section \<open>Claim C6: the keepalive drop policy\<close>

text \<open>
  Claim C6. \<open>random_drop_wg_keepalive\<close> returns true if and only if the type byte
  is \<open>WG_DATA\<close>, the length is exactly 32 and byte 0 of the keystream derived from
  the last 8 bytes of the message exceeds 50. For every other type and length it
  returns false whatever the keystream primitive is: the primitive is not consulted.
\<close>

theorem random_drop_wg_keepalive_iff:
  "(random_drop_wg_keepalive h buf len key \<longleftrightarrow>
      buf 0 = WG_DATA \<and> len = 32 \<and> h (load buf (len - 8) 8) key 0 > 50)
   \<and> (\<not> (buf 0 = WG_DATA \<and> len = 32) \<longrightarrow>
        (\<forall>h'. random_drop_wg_keepalive h' buf len key = False))"
  by (auto simp: random_drop_wg_keepalive_def Let_def CHACHA8_INPUT_SIZE_def)

theorem random_drop_wg_keepalive_iff_witness:
  "\<not> (of_bytes data_msg 0 = WG_DATA \<and> (40 :: int) = 32)
   \<and> random_drop_wg_keepalive test_hash (of_bytes data_msg) 40 test_key = False"
  using random_drop_wg_keepalive_iff [of test_hash "of_bytes data_msg" 40 test_key]
  by simp

text \<open>A keepalive that the policy drops: byte 0 of its keystream is 65.\<close>

lemma random_drop_wg_keepalive_example:
  "random_drop_wg_keepalive test_hash (of_bytes keepalive_msg) 32 test_key"
  by code_simp

section \<open>Claim C7: randomising the tag twice\<close>

text \<open>
  Claim C7. \<open>obfs_mac2\<close> changes nothing (neither the message nor the
  \<open>obfs_buf\<close>) on a handshake message whose first 32-bit word of mac2 is non-zero;
  and applying it a second time, with any key, to the result of a first application
  changes nothing, for every buffer.
\<close>

theorem obfs_mac2_idempotent:
  "((buf 0 = WG_HANDSHAKE_INIT \<and> data_len = 148 \<and> load_u32 buf hsi_mac2 \<noteq> 0
       \<or> buf 0 = WG_HANDSHAKE_RESP \<and> data_len = 92 \<and> load_u32 buf hsr_mac2 \<noteq> 0)
      \<longrightarrow> obfs_mac2 h buf data_len ob k = (buf, ob))
   \<and> obfs_mac2 h (fst (obfs_mac2 h buf data_len ob k)) data_len
        (snd (obfs_mac2 h buf data_len ob k)) k' = obfs_mac2 h buf data_len ob k"
  by (simp add: obfs_mac2_def Let_def memcpy_apply WG_HANDSHAKE_INIT_def WG_HANDSHAKE_RESP_def
      hsi_mac2_def hsr_mac2_def)

text \<open>
  Claim C5. Whenever \<open>xt_obfs\<close> continues with an encoded datagram, the datagram is
  longer than the message by exactly the length \<open>get_random_insert\<close> chose, which
  lies between 4 and 32, and is at most 8 when the message is longer than 200 bytes.
\<close>

theorem obfs_mac2_idempotent_witness:
  "(of_bytes hsi_set 0 = WG_HANDSHAKE_INIT \<and> (148 :: int) = 148
      \<and> load_u32 (of_bytes hsi_set) hsi_mac2 \<noteq> 0)
   \<and> obfs_mac2 test_hash (of_bytes hsi_set) 148 test_ob test_key = (of_bytes hsi_set, test_ob)"
proof -
  have b0: "of_bytes hsi_set 0 = WG_HANDSHAKE_INIT"
    by (simp add: of_bytes_def hsi_set_def WG_HANDSHAKE_INIT_def)
  have "of_bytes hsi_set 132 = 7"
    by (simp add: of_bytes_def hsi_set_def nth_append)
  then have nz: "load_u32 (of_bytes hsi_set) hsi_mac2 \<noteq> 0"
    unfolding hsi_mac2_def load_u32_zero_iff by simp
  from obfs_mac2_idempotent [of "of_bytes hsi_set" 148 test_hash test_ob test_key test_key] b0 nz
  show ?thesis by simp
qed

section \<open>Claim C8: the bytes of a non-handshake message in the datagram\<close>

text \<open>
  Claim C8 says that the datagram holds the message's bytes from offset 16 on at offset
  \<open>L + 16\<close>, after an \<open>L\<close>-byte prefix, \<open>L\<close> being the padding length.
  \<open>obfs_wg\<close> places them by the \<open>rnd_len\<close> field of the \<open>obfs_buf\<close>
  (\<open>obfs_wg_frame\<close>), a field that \<open>xt_obfs\<close> never assigns: it keeps the selected
  length in a local variable and grows the datagram by that. Here the selector
  chooses 4 and the field holds 9: the datagram has 44 bytes, byte \<open>4 + 16\<close> is 99 and
  not the message's byte 16, which sits at offset \<open>9 + 16\<close>.
\<close>

theorem xt_obfs_stale_rnd_len:
  "xt_obfs test_hash test_rng True stale_ob test_key (of_bytes data_msg) 40
        = Some (XT_CONTINUE, data_msg_stale_enc, 44)
   \<and> of_bytes data_msg 16 = 16
   \<and> data_msg_stale_enc (4 + 16) = 99
   \<and> data_msg_stale_enc (9 + 16) = 16"
proof -
  have b0: "of_bytes data_msg 0 = 4" by (simp add: of_bytes_def data_msg_def)
  have nhs: "of_bytes data_msg 0 \<noteq> WG_HANDSHAKE_INIT" "of_bytes data_msg 0 \<noteq> WG_HANDSHAKE_RESP"
    by (simp_all add: b0 WG_HANDSHAKE_INIT_def WG_HANDSHAKE_RESP_def)
  have enc: "xt_obfs test_hash test_rng True stale_ob test_key (of_bytes data_msg) 40
        = Some (XT_CONTINUE, data_msg_stale_enc, 44)"
    by (simp add: xt_obfs_def random_drop_wg_keepalive_def Let_def MIN_RND_LEN_def
        MAX_RND_LEN_def get_random_insert_test [unfolded MAX_RND_LEN_def]
        data_msg_stale_enc_def test_rnd_def stale_ob_def)
  have L: "uint (rnd_len stale_ob) = 9" by (simp add: stale_ob_def)
  have o16: "of_bytes data_msg 16 = 16" by code_simp
  have "data_msg_stale_enc (4 + 16)
      = of_bytes data_msg 11 XOR test_hash (load (of_bytes data_msg) 32 8) test_key 11"
    unfolding data_msg_stale_enc_def
    by (simp add: obfs_wg_apply L obfs_mac2_other nhs xor16_apply)
  also have "\<dots> = 99" by code_simp
  finally have e20: "data_msg_stale_enc (4 + 16) = 99" .
  have "data_msg_stale_enc (9 + 16) = of_bytes data_msg (9 + 16 - 9)"
    unfolding data_msg_stale_enc_def
    using obfs_wg_frame [where buf = "of_bytes data_msg" and ob = "stale_ob\<lparr>rnd := test_rnd\<rparr>"
        and j = "9 + 16" and len = 40 and h = test_hash and key = test_key] nhs
    by (simp add: L)
  then have e25: "data_msg_stale_enc (9 + 16) = 16" using o16 by simp
  from enc o16 e20 e25 show ?thesis by simp
qed

text \<open>
  The datagram of that run does not decode: its last 8 bytes are not the message's, the
  keystream differs, and the recovered length 33 fails the size check.
\<close>

lemma xt_unobfs_stale_rnd_len:
  "fst (xt_unobfs test_hash True test_key data_msg_stale_enc 44) = NF_DROP"
proof -
  have b0: "of_bytes data_msg 0 = 4" by (simp add: of_bytes_def data_msg_def)
  have nhs: "of_bytes data_msg 0 \<noteq> WG_HANDSHAKE_INIT" "of_bytes data_msg 0 \<noteq> WG_HANDSHAKE_RESP"
    by (simp_all add: b0 WG_HANDSHAKE_INIT_def WG_HANDSHAKE_RESP_def)
  have L: "uint (rnd_len stale_ob) = 9" "rnd_len stale_ob = 9" by (simp_all add: stale_ob_def)
  have seed: "load data_msg_stale_enc (44 - 8) 8 = load (of_bytes data_msg) 27 8"
  proof (rule load_cong)
    fix i :: nat assume "i < 8"
    then show "data_msg_stale_enc (44 - 8 + int i) = of_bytes data_msg (27 + int i)"
      unfolding data_msg_stale_enc_def
      using obfs_wg_frame [where buf = "of_bytes data_msg" and ob = "stale_ob\<lparr>rnd := test_rnd\<rparr>"
          and j = "44 - 8 + int i" and len = 40 and h = test_hash and key = test_key] nhs
      by (simp add: L)
  qed
  have first: "data_msg_stale_enc 0
      = 9 XOR test_hash (load (of_bytes data_msg) 32 8) test_key 16"
    unfolding data_msg_stale_enc_def
    by (simp add: obfs_wg_apply L obfs_mac2_other nhs)
  have "uint ((9 XOR test_hash (load (of_bytes data_msg) 32 8) test_key 16)
      XOR test_hash (load (of_bytes data_msg) 27 8) test_key 16) + 32 > (44 :: int)"
    by code_simp
  then have "uint (data_msg_stale_enc 0
      XOR test_hash (load data_msg_stale_enc (44 - 8) 8) test_key 16) + 32 > 44"
    by (simp only: seed first)
  then show ?thesis
    by (simp add: xt_unobfs_def MIN_RND_LEN_def restore_wg_fail)
qed

section \<open>Claim C9: the selector's range and termination\<close>

text \<open>
  Claim C9. For \<open>1 \<le> min_len \<le> max_len\<close> (bytes, so at most 255), every value
  \<open>get_random_insert\<close> returns lies in \<open>[min_len, max_len]\<close> and is not 0. The
  loop returns on every entropy stream in which some 32-byte block it draws holds a
  byte in \<open>[min_len, max_len]\<close>, however far away that block is, and on no other
  stream: the number of draws has no fixed bound.
\<close>

theorem get_random_insert_range_and_termination:
  assumes "1 \<le> min_len" and "min_len \<le> max_len"
  shows "(\<forall>buf' r pos'. get_random_insert rng pos buf min_len max_len = Some (buf', r, pos')
            \<longrightarrow> min_len \<le> r \<and> r \<le> max_len \<and> r \<noteq> 0)
     \<and> ((\<exists>res. get_random_insert rng pos buf min_len max_len = Some res) \<longleftrightarrow>
          (\<exists>n i. i < MAX_RND_LEN \<and> min_len \<le> rng (pos + MAX_RND_LEN * n + i)
             \<and> rng (pos + MAX_RND_LEN * n + i) \<le> max_len))"
proof (rule conjI)
  show "\<forall>buf' r pos'. get_random_insert rng pos buf min_len max_len = Some (buf', r, pos')
            \<longrightarrow> min_len \<le> r \<and> r \<le> max_len \<and> r \<noteq> 0"
    using get_random_insert_sound by blast
next
  show "(\<exists>res. get_random_insert rng pos buf min_len max_len = Some res) \<longleftrightarrow>
          (\<exists>n i. i < MAX_RND_LEN \<and> min_len \<le> rng (pos + MAX_RND_LEN * n + i)
             \<and> rng (pos + MAX_RND_LEN * n + i) \<le> max_len)"
  proof (rule iffI)
    assume "\<exists>res. get_random_insert rng pos buf min_len max_len = Some res"
    then show "\<exists>n i. i < MAX_RND_LEN \<and> min_len \<le> rng (pos + MAX_RND_LEN * n + i)
             \<and> rng (pos + MAX_RND_LEN * n + i) \<le> max_len"
      using get_random_insert_hit by blast
  next
    assume "\<exists>n i. i < MAX_RND_LEN \<and> min_len \<le> rng (pos + MAX_RND_LEN * n + i)
             \<and> rng (pos + MAX_RND_LEN * n + i) \<le> max_len"
    then show "\<exists>res. get_random_insert rng pos buf min_len max_len = Some res"
      using get_random_insert_terminates [OF assms(1)] by blast
  qed
qed

theorem get_random_insert_range_and_termination_witness:
  "(1 :: u8) \<le> 4 \<and> (4 :: u8) \<le> 32
   \<and> test_rng (0 + MAX_RND_LEN * 0 + 4) = 4
   \<and> get_random_insert test_rng 0 (\<lambda>_. 0) 4 32 = Some (test_rnd, 4, 32)"
proof -
  have a: "(1 :: u8) \<le> 4" "(4 :: u8) \<le> 32" by simp_all
  have hit: "test_rng (0 + MAX_RND_LEN * 0 + 4) = 4" by (simp add: test_rng_def)
  have run: "get_random_insert test_rng 0 (\<lambda>_. 0) 4 32 = Some (test_rnd, 4, 32)"
    unfolding test_rnd_def by (rule get_random_insert_test) simp
  from get_random_insert_range_and_termination [OF a, of test_rng 0 "\<lambda>_. 0"] a hit run
  show ?thesis by simp
qed

section \<open>Claim C10: the size check is the only validation\<close>

text \<open>
  Claim C10. For a datagram of at least 4 bytes, the recovered length \<open>L\<close> is any
  value from 0 to 255, and whenever \<open>L + 32 \<le> len\<close> the datagram is accepted:
  \<open>xt_unobfs\<close> continues with \<open>len - L\<close> bytes, the bytes from offset 16 on being
  those of the datagram from offset \<open>L + 16\<close> on (outside the two offsets where
  \<open>restore_mac2\<close> may clear a tag). Nothing requires \<open>L\<close> to lie in the encoder's
  range 4 to 32; the two datagrams below are accepted with \<open>L = 0\<close> and \<open>L = 2\<close>.
\<close>

theorem xt_unobfs_accepts:
  assumes "MIN_RND_LEN \<le> len"
    and "uint (buf 0 XOR h (load buf (len - 8) 8) key 16) + WG_MIN_LEN \<le> len"
  shows "fst (xt_unobfs h True key buf len) = XT_CONTINUE
     \<and> snd (snd (xt_unobfs h True key buf len))
          = len - uint (buf 0 XOR h (load buf (len - 8) 8) key 16)
     \<and> 0 \<le> uint (buf 0 XOR h (load buf (len - 8) 8) key 16)
     \<and> uint (buf 0 XOR h (load buf (len - 8) 8) key 16) \<le> 255
     \<and> (\<forall>j. 16 \<le> j \<and> j < len - uint (buf 0 XOR h (load buf (len - 8) 8) key 16)
              \<and> \<not> (hsr_mac2 \<le> j \<and> j < hsr_mac2 + int WG_COOKIE_LEN)
              \<and> \<not> (hsi_mac2 \<le> j \<and> j < hsi_mac2 + int WG_COOKIE_LEN)
            \<longrightarrow> fst (snd (xt_unobfs h True key buf len)) j
                  = buf (j + uint (buf 0 XOR h (load buf (len - 8) 8) key 16)))"
proof -
  define w where "w = buf 0 XOR h (load buf (len - 8) 8) key 16"
  have pass: "uint w + 32 \<le> len" using assms(2) by (simp add: w_def WG_MIN_LEN_def)
  have ge: "\<not> len < 4" using assms(1) by (simp add: MIN_RND_LEN_def)
  have bnd: "0 \<le> uint w" "uint w \<le> 255"
    using uint_ge_0 [of w] uint_lt2p [of w] by simp_all
  have un: "xt_unobfs h True key buf len =
      (XT_CONTINUE,
       restore_mac2 (xor16 (shift_head (buf(0 := w)) (uint w) (len - uint w))
         (h (load buf (len - 8) 8) key)),
       len - uint w)"
  proof -
    have rw: "restore_wg h buf len key =
      (uint w, restore_mac2 (xor16 (shift_head (buf(0 := w)) (uint w) (len - uint w))
         (h (load buf (len - 8) 8) key)))"
      using pass unfolding w_def by (rule restore_wg_pass)
    have "\<not> len < MIN_RND_LEN" using ge by (simp add: MIN_RND_LEN_def)
    moreover have "\<not> uint w < 0" using bnd(1) by simp
    ultimately show ?thesis unfolding xt_unobfs_def rw by simp
  qed
  have bytes: "restore_mac2 (xor16 (shift_head (buf(0 := w)) (uint w) (len - uint w))
         (h (load buf (len - 8) 8) key)) j = buf (j + uint w)"
    if "16 \<le> j" "j < len - uint w" "\<not> (76 \<le> j \<and> j < 92)" "\<not> (132 \<le> j \<and> j < 148)" for j
  proof -
    let ?X = "xor16 (shift_head (buf(0 := w)) (uint w) (len - uint w))
         (h (load buf (len - 8) 8) key)"
    have "restore_mac2 ?X j = ?X j" using that by (intro restore_mac2_outside) simp_all
    also have "?X j = shift_head (buf(0 := w)) (uint w) (len - uint w) j"
      using that by (simp add: xor16_apply)
    also have "\<dots> = (buf(0 := w)) (j + uint w)"
      using that bnd(1) by (simp add: shift_head_apply)
    also have "\<dots> = buf (j + uint w)"
    proof -
      have "j + uint w \<noteq> 0" using that(1) bnd(1) by linarith
      then show ?thesis by simp
    qed
    finally show ?thesis .
  qed
  show ?thesis
    unfolding w_def [symmetric] un using bnd bytes
    by (simp add: hsi_mac2_def hsr_mac2_def WG_COOKIE_LEN_def)
qed

theorem xt_unobfs_accepts_witness:
  "MIN_RND_LEN \<le> 32
   \<and> uint (of_bytes len0_dgram 0 XOR test_hash (load (of_bytes len0_dgram) (32 - 8) 8) test_key 16)
        = 0
   \<and> fst (xt_unobfs test_hash True test_key (of_bytes len0_dgram) 32) = XT_CONTINUE
   \<and> snd (snd (xt_unobfs test_hash True test_key (of_bytes len0_dgram) 32)) = 32
   \<and> fst (snd (xt_unobfs test_hash True test_key (of_bytes len0_dgram) 32)) 16
        = of_bytes len0_dgram 16
   \<and> uint (of_bytes len2_dgram 0 XOR test_hash (load (of_bytes len2_dgram) (34 - 8) 8) test_key 16)
        = 2
   \<and> fst (xt_unobfs test_hash True test_key (of_bytes len2_dgram) 34) = XT_CONTINUE
   \<and> snd (snd (xt_unobfs test_hash True test_key (of_bytes len2_dgram) 34)) = 32"
proof -
  have a': "MIN_RND_LEN \<le> 34" by (simp add: MIN_RND_LEN_def)
  have z': "uint (of_bytes len2_dgram 0
      XOR test_hash (load (of_bytes len2_dgram) (34 - 8) 8) test_key 16) = 2"
    by code_simp
  then have b': "uint (of_bytes len2_dgram 0
      XOR test_hash (load (of_bytes len2_dgram) (34 - 8) 8) test_key 16) + WG_MIN_LEN \<le> 34"
    by (simp add: WG_MIN_LEN_def)
  have a: "MIN_RND_LEN \<le> 32" by (simp add: MIN_RND_LEN_def)
  have z: "uint (of_bytes len0_dgram 0
      XOR test_hash (load (of_bytes len0_dgram) (32 - 8) 8) test_key 16) = 0"
    by code_simp
  then have b: "uint (of_bytes len0_dgram 0
      XOR test_hash (load (of_bytes len0_dgram) (32 - 8) 8) test_key 16) + WG_MIN_LEN \<le> 32"
    by (simp add: WG_MIN_LEN_def)
  from xt_unobfs_accepts [of 32 "of_bytes len0_dgram" test_hash test_key] a b z
    xt_unobfs_accepts [of 34 "of_bytes len2_dgram" test_hash test_key] a' b' z'
  show ?thesis
    by (simp add: hsi_mac2_def hsr_mac2_def WG_COOKIE_LEN_def)
qed

end
